theory Spec2Isabelle
  imports Main "HOL-Library.Word" "HOL-Library.Multiset"
begin

unbundle bit_operations_syntax

section \<open>Data model of utils/ZipUtil.cpp\<close>

text \<open>
  \<^verbatim>\<open>TCHAR\<close> is the 16-bit \<^verbatim>\<open>WCHAR\<close> of the Unicode build; a C string is the list of
  its characters before the terminating NUL. \<^verbatim>\<open>uint32_t\<close> is \<open>32 word\<close>, minizip's
  \<^verbatim>\<open>ZPOS64_T\<close> is \<open>64 word\<close>, and the platform's \<^verbatim>\<open>size_t\<close> is \<open>'s word\<close> for a
  width \<open>'s\<close> left open (32 or 64 on the builds of the program).
\<close>

type_synonym TCHAR = "16 word"
type_synonym tstring = "TCHAR list"
type_synonym uint32_t = "32 word"
type_synonym ZPOS64_T = "64 word"
type_synonym byte = "8 word"

text \<open>The macro \<^verbatim>\<open>_T("...")\<close>: a string literal as a string of \<^verbatim>\<open>TCHAR\<close>.\<close>

definition T_lit :: "string \<Rightarrow> tstring" where
  "T_lit s = map (\<lambda>c. of_nat (of_char c)) s"

text \<open>The fields of minizip's \<^verbatim>\<open>unz_file_info64\<close> and \<^verbatim>\<open>unz64_file_pos\<close> that the code reads.\<close>

record unz_file_info64 =
  flag :: "32 word"
  dosDate :: "32 word"
  uncompressed_size :: ZPOS64_T

record unz64_file_pos =
  pos_in_zip_directory :: ZPOS64_T
  num_of_file :: ZPOS64_T

definition INVALID_ZIP_FILE_POS :: ZPOS64_T where
  "INVALID_ZIP_FILE_POS = -1"

definition UNZ_OK :: int where
  "UNZ_OK = 0"

text \<open>
  The class \<^verbatim>\<open>ZipFile\<close>: the codec context \<^verbatim>\<open>uf\<close> (\<open>None\<close> is the null pointer of
  a failed open), the four parallel vectors and the comment length.
\<close>

record 'u ZipFile =
  uf :: "'u option"
  filenames :: "tstring list"
  filenameHashes :: "uint32_t list"
  fileinfo :: "unz_file_info64 list"
  filepos :: "unz64_file_pos list"
  commentLen :: nat

section \<open>Quick hash\<close>

text \<open>
  Modelled from the spec: the C runtime's \<^verbatim>\<open>_totlower\<close> is not part of the sources; the
  spec fixes it as simple ASCII lower-casing, independent of the locale.
\<close>

definition totlower :: "TCHAR \<Rightarrow> TCHAR" where
  "totlower c = (if 0x41 \<le> c \<and> c \<le> 0x5A then c + 0x20 else c)"

text \<open>
  The inner loop \<^verbatim>\<open>for (int i = 0; i < 8; i++)\<close> of \<^verbatim>\<open>GetQuickHashI\<close>; the first
  argument counts the iterations that remain.
\<close>

fun hash_bits_loop :: "nat \<Rightarrow> uint32_t \<Rightarrow> uint32_t" where
  "hash_bits_loop 0 bits = bits"
| "hash_bits_loop (Suc n) bits =
     hash_bits_loop n
       (if bits AND 0x80000000 \<noteq> 0 then push_bit 1 bits XOR 0x04C11DB7
        else push_bit 1 bits)"

text \<open>One round of the outer loop: the new \<^verbatim>\<open>crc\<close> from the old one and a character.\<close>

definition hash_step :: "uint32_t \<Rightarrow> TCHAR \<Rightarrow> uint32_t" where
  "hash_step crc c =
     (let bits = (crc XOR push_bit 24 (ucast (totlower c AND 0xFF))) AND 0xFF000000;
          bits' = hash_bits_loop 8 bits
      in push_bit 8 crc XOR bits')"

fun GetQuickHashI_loop :: "uint32_t \<Rightarrow> tstring \<Rightarrow> uint32_t" where
  "GetQuickHashI_loop crc [] = crc"
| "GetQuickHashI_loop crc (c # str) = GetQuickHashI_loop (hash_step crc c) str"

definition GetQuickHashI :: "tstring \<Rightarrow> uint32_t" where
  "GetQuickHashI str = GetQuickHashI_loop 0 str"

section \<open>Lookup by name\<close>

text \<open>
  Modelled from the spec: \<^verbatim>\<open>str::EqI\<close> (utils/StrUtil) is not part of the sources; the
  spec describes it as case-insensitive equality of the full strings.
\<close>

definition EqI :: "tstring \<Rightarrow> tstring \<Rightarrow> bool" where
  "EqI s1 s2 = (map totlower s1 = map totlower s2)"

text \<open>
  Modelled from the spec: \<^verbatim>\<open>Vec::Find(el, startAt)\<close> (utils/Vec.h) is not part of the
  sources. The spec has the scan of the hash sequence start from position 0 and
  continue from the position of the previous match, and a one-entry archive is found
  at its index 0: the search runs over the positions \<open>startAt, startAt + 1, ...\<close>,
  \<open>startAt\<close> included, and yields the first position holding \<open>el\<close>, or \<open>-1\<close>.
\<close>

function Find_loop :: "'a list \<Rightarrow> 'a \<Rightarrow> nat \<Rightarrow> int" where
  "Find_loop els el i =
     (if i < length els then (if els ! i = el then int i else Find_loop els el (Suc i))
      else -1)"
  by pat_completeness auto
termination
  by (relation "measure (\<lambda>(els, el, i). length els - i)") auto

declare Find_loop.simps [simp del]

definition Find :: "'a list \<Rightarrow> 'a \<Rightarrow> int \<Rightarrow> int" where
  "Find els el startAt = Find_loop els el (nat startAt)"

text \<open>
  The loop of \<^verbatim>\<open>ZipFile::GetFileIndex\<close>,
  \<^verbatim>\<open>for (int i = 0; (i = filenameHashes.Find(hash, i)) != -1; )\<close>: the loop header has
  no increment, so the next round searches from the position just examined. The loop
  need not end; \<open>None\<close> is the run that never returns.
\<close>

partial_function (option) GetFileIndex_loop ::
  "'u ZipFile \<Rightarrow> tstring \<Rightarrow> uint32_t \<Rightarrow> int \<Rightarrow> int option" where
  "GetFileIndex_loop z filename hash i =
     (let i' = Find (filenameHashes z) hash i in
      if i' \<noteq> -1 then
        (if EqI filename (filenames z ! nat i') then Some i'
         else GetFileIndex_loop z filename hash i')
      else Some (-1))"

declare GetFileIndex_loop.simps [code]

text \<open>\<^verbatim>\<open>ZipFile::GetFileIndex\<close>; the result is converted to \<^verbatim>\<open>size_t\<close>.\<close>

definition GetFileIndex :: "'u ZipFile \<Rightarrow> tstring \<Rightarrow> 's::len word option" where
  "GetFileIndex z filename =
     map_option word_of_int (GetFileIndex_loop z filename (GetQuickHashI filename) 0)"

definition NOT_FOUND :: "'s::len word" where
  "NOT_FOUND = -1"


section \<open>The collaborators\<close>

text \<open>
  The archive codec (minizip) is a black box with its own state \<open>'u\<close>, the context
  behind the pointer \<^verbatim>\<open>uf\<close>; every primitive returns its results and the context it
  leaves behind. \<^verbatim>\<open>unzGetCurrentFileInfo64\<close> takes the size of the name buffer and
  yields the bytes it left there; \<^verbatim>\<open>unzReadCurrentFile\<close> takes the requested length and
  yields its return value, as the \<^verbatim>\<open>unsigned int\<close> the caller stores it in (an error
  code, negative as an \<^verbatim>\<open>int\<close>, is a value from \<open>2^31\<close> on), and the bytes it
  delivered.
\<close>

record unz_global_info64 =
  number_entry :: ZPOS64_T
  size_comment :: "32 word"

record 'u unz_api =
  unzGetGlobalInfo64 :: "'u \<Rightarrow> int \<times> unz_global_info64 \<times> 'u"
  unzGoToFirstFile :: "'u \<Rightarrow> int \<times> 'u"
  unzGoToNextFile :: "'u \<Rightarrow> int \<times> 'u"
  unzGetCurrentFileInfo64 :: "'u \<Rightarrow> nat \<Rightarrow> int \<times> unz_file_info64 \<times> byte list \<times> 'u"
  unzGetFilePos64 :: "'u \<Rightarrow> int \<times> unz64_file_pos \<times> 'u"
  unzGoToFilePos64 :: "'u \<Rightarrow> unz64_file_pos \<Rightarrow> int \<times> 'u"
  unzLocateFile :: "'u \<Rightarrow> byte list \<Rightarrow> int \<times> 'u"
  unzOpenCurrentFilePassword :: "'u \<Rightarrow> int \<times> 'u"
  unzReadCurrentFile :: "'u \<Rightarrow> 32 word \<Rightarrow> 32 word \<times> byte list \<times> 'u"
  unzCloseCurrentFile :: "'u \<Rightarrow> int \<times> 'u"
  unzGetGlobalComment :: "'u \<Rightarrow> nat \<Rightarrow> int \<times> byte list \<times> 'u"

record FILETIME =
  dwLowDateTime :: "32 word"
  dwHighDateTime :: "32 word"

text \<open>
  The rest of the environment: the code page conversions of \<^verbatim>\<open>str::conv\<close> (with the
  size of the destination buffer), whether an allocation of so many bytes succeeds
  (\<^verbatim>\<open>Allocator::Alloc\<close>, and the \<^verbatim>\<open>SAZA\<close> of \<^verbatim>\<open>GetComment\<close>), the two Win32 time
  conversions (\<^verbatim>\<open>DosDateTimeToFileTime\<close> gives the contents of its output afterwards,
  \<^verbatim>\<open>LocalFileTimeToFileTime\<close> gives \<open>None\<close> when it fails and leaves its output alone),
  and the file system (\<^verbatim>\<open>file::WriteAll\<close>, \<^verbatim>\<open>file::Exists\<close>).
\<close>

record sys_api =
  FromCodePageBuf :: "nat \<Rightarrow> byte list \<Rightarrow> 32 word \<Rightarrow> tstring"
  ToCodePageBuf :: "nat \<Rightarrow> tstring \<Rightarrow> 32 word \<Rightarrow> byte list"
  Alloc_ok :: "nat \<Rightarrow> bool"
  SAZA_ok :: "nat \<Rightarrow> bool"
  DosDateTimeToFileTime :: "16 word \<Rightarrow> 16 word \<Rightarrow> FILETIME"
  LocalFileTimeToFileTime :: "FILETIME \<Rightarrow> FILETIME option"
  WriteAll :: "tstring \<Rightarrow> byte list \<Rightarrow> nat \<Rightarrow> bool"
  Exists :: "tstring \<Rightarrow> bool"

text \<open>The calls a run makes to the allocator and to the file system, in order.\<close>

datatype event = EvAlloc nat | EvFree | EvWriteAll tstring

definition MAX_PATH :: nat where
  "MAX_PATH = 260"

definition CP_ZIP :: "32 word" where
  "CP_ZIP = 437"

definition CP_UTF8 :: "32 word" where
  "CP_UTF8 = 65001"

text \<open>\<^verbatim>\<open>(finfo.flag & (1 << 11)) ? CP_UTF8 : CP_ZIP\<close>\<close>

definition name_codepage :: "unz_file_info64 \<Rightarrow> 32 word" where
  "name_codepage finfo = (if flag finfo AND push_bit 11 1 \<noteq> 0 then CP_UTF8 else CP_ZIP)"

section \<open>Opening and enumerating\<close>

text \<open>
  The loop of \<^verbatim>\<open>ZipFile::ExtractFilenames\<close>,
  \<^verbatim>\<open>for (int i = 0; i < ginfo.number_entry && UNZ_OK == err; i++)\<close>, with the entry
  count \<open>n\<close>, the counter, the last error code and the codec context as loop state.
  (The counter is an \<^verbatim>\<open>int\<close> in the source; it is not modelled beyond \<open>2^31\<close> entries.)
\<close>

function ExtractFilenames_loop ::
  "'u unz_api \<Rightarrow> sys_api \<Rightarrow> nat \<Rightarrow> nat \<Rightarrow> int \<Rightarrow> 'u \<Rightarrow> 'u ZipFile \<Rightarrow> 'u ZipFile" where
  "ExtractFilenames_loop api sys n i err u z =
     (if i < n \<and> UNZ_OK = err then
        (let (err1, finfo, fileName, u1) = unzGetCurrentFileInfo64 api u MAX_PATH;
             (z1, u2) =
               (if err1 = UNZ_OK then
                  (let fileNameT = FromCodePageBuf sys MAX_PATH fileName (name_codepage finfo);
                       (err2, fpos, u2) = unzGetFilePos64 api u1;
                       fpos' = (if err2 \<noteq> UNZ_OK
                                then fpos\<lparr>num_of_file := INVALID_ZIP_FILE_POS\<rparr> else fpos)
                   in (z\<lparr>filenames := filenames z @ [fileNameT],
                          filenameHashes := filenameHashes z @ [GetQuickHashI fileNameT],
                          fileinfo := fileinfo z @ [finfo],
                          filepos := filepos z @ [fpos']\<rparr>, u2))
                else (z, u1));
             (err3, u3) = unzGoToNextFile api u2
         in ExtractFilenames_loop api sys n (Suc i) err3 u3 z1)
      else z\<lparr>uf := Some u\<rparr>)"
  by pat_completeness auto
termination
  by (relation "measure (\<lambda>(api, sys, n, i, err, u, z). n - i)") auto

declare ExtractFilenames_loop.simps [simp del]

definition ExtractFilenames :: "'u unz_api \<Rightarrow> sys_api \<Rightarrow> 'u ZipFile \<Rightarrow> 'u ZipFile" where
  "ExtractFilenames api sys z =
     (case uf z of
        None \<Rightarrow> z
      | Some u \<Rightarrow>
          (let (err, ginfo, u1) = unzGetGlobalInfo64 api u in
           if err \<noteq> UNZ_OK then z\<lparr>uf := Some u1\<rparr>
           else
             (let (e, u2) = unzGoToFirstFile api u1;
                  z' = ExtractFilenames_loop api sys (unat (number_entry ginfo)) 0 err u2 z
              in z'\<lparr>commentLen := unat (size_comment ginfo)\<rparr>)))"

text \<open>
  The two constructors of \<^verbatim>\<open>ZipFile\<close> differ in the source they hand to
  \<^verbatim>\<open>unzOpen2_64\<close> only; \<open>opened\<close> is what that call returned.
\<close>

definition ZipFile_ctor :: "'u unz_api \<Rightarrow> sys_api \<Rightarrow> 'u option \<Rightarrow> 'u ZipFile" where
  "ZipFile_ctor api sys opened =
     (let z = \<lparr>uf = opened, filenames = [], filenameHashes = [], fileinfo = [],
                filepos = [], commentLen = 0\<rparr>
      in if opened \<noteq> None then ExtractFilenames api sys z else z)"

definition GetFileCount :: "'u ZipFile \<Rightarrow> nat" where
  "GetFileCount z = length (filenames z)"

definition GetFileName :: "'u ZipFile \<Rightarrow> 's::len word \<Rightarrow> tstring option" where
  "GetFileName z fileindex =
     (if unat fileindex \<ge> length (filenames z) then None
      else Some (filenames z ! unat fileindex))"

section \<open>Reading an entry\<close>

text \<open>
  What a call of \<^verbatim>\<open>GetFileData\<close> leaves behind: the returned pointer (\<open>None\<close> is
  \<^verbatim>\<open>NULL\<close>, otherwise the contents of the buffer), the value stored through \<^verbatim>\<open>len\<close>
  if one was stored (of type \<open>'w\<close>, a \<^verbatim>\<open>size_t\<close>), the handle afterwards, and the
  allocator and file system calls.
\<close>

record ('u, 'w) outcome =
  data :: "byte list option"
  len_out :: "'w option"
  handle :: "'u ZipFile"
  events :: "event list"

text \<open>
  Lines 140 to 148 of \<^verbatim>\<open>GetFileData\<close>: go to the cached position if there is one,
  and search by the re-encoded name if that did not succeed.
\<close>

definition locate_entry ::
  "'u unz_api \<Rightarrow> sys_api \<Rightarrow> 'u ZipFile \<Rightarrow> 'u \<Rightarrow> nat \<Rightarrow> int \<times> 'u" where
  "locate_entry api sys z u fileindex =
     (let (err, u1) =
            (if num_of_file (filepos z ! fileindex) \<noteq> INVALID_ZIP_FILE_POS
             then unzGoToFilePos64 api u (filepos z ! fileindex) else (-1, u))
      in if err \<noteq> UNZ_OK then
           (let cp = name_codepage (fileinfo z ! fileindex);
                fileNameA = ToCodePageBuf sys MAX_PATH (filenames z ! fileindex) cp
            in unzLocateFile api u1 fileNameA)
         else (err, u1))"

text \<open>
  Lines 163 to 184: allocate \<^verbatim>\<open>len2 + sizeof(WCHAR)\<close> bytes, read, terminate, compare
  the count, close the entry. \<^verbatim>\<open>readBytes\<close> is an \<^verbatim>\<open>unsigned int\<close>; the comparison
  with \<^verbatim>\<open>len2\<close> is one of values. Freeing a null pointer does nothing.
\<close>

definition read_entry ::
  "'u unz_api \<Rightarrow> sys_api \<Rightarrow> 'u ZipFile \<Rightarrow> 'u \<Rightarrow> 's::len word \<Rightarrow> ('u, 's word) outcome" where
  "read_entry api sys z u len2 =
     (let size = unat (len2 + 2);
          (result, len, u1, evs) =
            (if Alloc_ok sys size then
               (let (readBytes, bytes, u1) = unzReadCurrentFile api u (ucast len2);
                    buf = take (unat len2) bytes @ [0, 0]
                in if unat readBytes \<noteq> unat len2
                   then (None, None, u1, [EvAlloc size, EvFree])
                   else (Some buf, Some len2, u1, [EvAlloc size]))
             else (None, None, u, [EvAlloc size]));
          (err, u2) = unzCloseCurrentFile api u1
      in if err \<noteq> UNZ_OK
         then \<lparr>data = None, len_out = len, handle = z\<lparr>uf := Some u2\<rparr>,
               events = evs @ (if result \<noteq> None then [EvFree] else [])\<rparr>
         else \<lparr>data = result, len_out = len, handle = z\<lparr>uf := Some u2\<rparr>, events = evs\<rparr>)"

text \<open>
  \<^verbatim>\<open>ZipFile::GetFileData(size_t fileindex, size_t *len)\<close>. The comparison of
  \<^verbatim>\<open>len2\<close> with the 64-bit size is one of values, after the usual conversions.
\<close>

definition GetFileData ::
  "'u unz_api \<Rightarrow> sys_api \<Rightarrow> 'u ZipFile \<Rightarrow> 's::len word \<Rightarrow> ('u, 's word) outcome" where
  "GetFileData api sys z fileindex =
     (case uf z of
        None \<Rightarrow> \<lparr>data = None, len_out = None, handle = z, events = []\<rparr>
      | Some u \<Rightarrow>
          if unat fileindex \<ge> length (filenames z)
          then \<lparr>data = None, len_out = None, handle = z, events = []\<rparr>
          else
            (let (err, u1) = locate_entry api sys z u (unat fileindex) in
             if err \<noteq> UNZ_OK
             then \<lparr>data = None, len_out = None, handle = z\<lparr>uf := Some u1\<rparr>, events = []\<rparr>
             else
               (let (err, u2) = unzOpenCurrentFilePassword api u1 in
                if err \<noteq> UNZ_OK
                then \<lparr>data = None, len_out = None, handle = z\<lparr>uf := Some u2\<rparr>, events = []\<rparr>
                else
                  (let usize = uncompressed_size (fileinfo z ! unat fileindex);
                       len2 = (ucast usize :: 's word)
                   in if unat len2 \<noteq> unat usize \<or> len2 + 2 < 2
                      then (let (e, u3) = unzCloseCurrentFile api u2
                            in \<lparr>data = None, len_out = None, handle = z\<lparr>uf := Some u3\<rparr>,
                                events = []\<rparr>)
                      else read_entry api sys z u2 len2))))"

text \<open>
  \<^verbatim>\<open>ZipFile::GetFileData(const TCHAR *filename, size_t *len)\<close>; it returns only if the
  lookup does.
\<close>

definition GetFileData_name ::
  "'u unz_api \<Rightarrow> sys_api \<Rightarrow> 'u ZipFile \<Rightarrow> tstring \<Rightarrow> ('u, 's::len word) outcome option" where
  "GetFileData_name api sys z filename =
     map_option (GetFileData api sys z) (GetFileIndex z filename)"

section \<open>Time stamp and comment\<close>

text \<open>\<^verbatim>\<open>FILETIME ft = { -1, -1 }\<close>\<close>

definition invalid_FILETIME :: FILETIME where
  "invalid_FILETIME = \<lparr>dwLowDateTime = -1, dwHighDateTime = -1\<rparr>"

definition GetFileTime :: "sys_api \<Rightarrow> 'u ZipFile \<Rightarrow> 's::len word \<Rightarrow> FILETIME" where
  "GetFileTime sys z fileindex =
     (if uf z \<noteq> None \<and> unat fileindex < length (fileinfo z) then
        (let d = dosDate (fileinfo z ! unat fileindex);
             ftLocal = DosDateTimeToFileTime sys (ucast (drop_bit 16 d)) (ucast d)
         in case LocalFileTimeToFileTime sys ftLocal of
              None \<Rightarrow> invalid_FILETIME
            | Some ft \<Rightarrow> ft)
      else invalid_FILETIME)"

text \<open>
  \<^verbatim>\<open>ZipFile::GetFileTime(const TCHAR *filename)\<close>; the first argument only names the
  width of the \<^verbatim>\<open>size_t\<close> index passed on.
\<close>

definition GetFileTime_name ::
  "'s::len itself \<Rightarrow> sys_api \<Rightarrow> 'u ZipFile \<Rightarrow> tstring \<Rightarrow> FILETIME option" where
  "GetFileTime_name ty sys z filename =
     map_option (\<lambda>i :: 's word. GetFileTime sys z i) (GetFileIndex z filename)"

text \<open>
  \<^verbatim>\<open>ZipFile::GetComment\<close>: the returned buffer, the stored length, the handle
  afterwards and the allocator calls. The zeroed buffer of \<^verbatim>\<open>commentLen + 1\<close> bytes
  is released at the end of the scope unless it is handed to the caller.
\<close>

definition GetComment ::
  "'u unz_api \<Rightarrow> sys_api \<Rightarrow> 'u ZipFile \<Rightarrow> byte list option \<times> nat option \<times> 'u ZipFile \<times> event list" where
  "GetComment api sys z =
     (let size = commentLen z + 1;
          comment = SAZA_ok sys size;
          released = [EvAlloc size] @ (if comment then [EvFree] else [])
      in case uf z of
           None \<Rightarrow> (None, None, z, released)
         | Some u \<Rightarrow>
             if \<not> comment then (None, None, z, released)
             else
               (let (read, bytes, u1) = unzGetGlobalComment api u (commentLen z) in
                if read \<le> 0 then (None, None, z\<lparr>uf := Some u1\<rparr>, released)
                else (Some (take size (take (commentLen z) bytes @ replicate size 0)),
                      Some (commentLen z),
                      z\<lparr>uf := Some u1\<rparr>, [EvAlloc size])))"

section \<open>Extracting to a directory\<close>

text \<open>
  Modelled from the spec: \<^verbatim>\<open>str::EndsWith\<close> and \<^verbatim>\<open>str::TransChars\<close> (utils/StrUtil) are
  not part of the sources. The first tells whether a string ends with another; the
  second replaces, in the whole string it is given, every character that occurs in
  \<open>oldChars\<close> by the character at the same position of \<open>newChars\<close> (the spec's
  translation of the archive's separators into the host's).
\<close>

definition EndsWith :: "tstring \<Rightarrow> tstring \<Rightarrow> bool" where
  "EndsWith txt ending =
     (length ending \<le> length txt \<and> drop (length txt - length ending) txt = ending)"

definition TransChars :: "tstring \<Rightarrow> tstring \<Rightarrow> tstring \<Rightarrow> tstring" where
  "TransChars str oldChars newChars =
     map (\<lambda>c. case map_of (zip oldChars newChars) c of None \<Rightarrow> c | Some d \<Rightarrow> d) str"

text \<open>
  Lines 224 to 233 of \<^verbatim>\<open>ZipFile::UnzipFile\<close>: the path the data is written to.
  \<^verbatim>\<open>TransChars\<close> is handed the buffer of \<^verbatim>\<open>filePath\<close>, that is the directory, the
  separator and the name together.
\<close>

definition UnzipFile_path :: "tstring \<Rightarrow> tstring \<Rightarrow> tstring option \<Rightarrow> tstring" where
  "UnzipFile_path filename dir unzippedName =
     (let filePath = dir;
          filePath = (if \<not> EndsWith filePath (T_lit [CHR 0x5C])
                      then filePath @ T_lit [CHR 0x5C] else filePath)
      in case unzippedName of
           Some n \<Rightarrow> filePath @ n
         | None \<Rightarrow> TransChars (filePath @ filename) (T_lit ''/'') (T_lit [CHR 0x5C]))"

text \<open>
  \<^verbatim>\<open>ZipFile::UnzipFile\<close>: the returned flag, with the outcome of the read extended by
  the calls made afterwards. \<^verbatim>\<open>len\<close> is the value \<^verbatim>\<open>GetFileData\<close> stored; it
  stores one whenever it returns a buffer (\<open>GetFileData_len_out\<close> below), so the
  branch without one is never taken.
\<close>

definition UnzipFile ::
  "'u unz_api \<Rightarrow> sys_api \<Rightarrow> 'u ZipFile \<Rightarrow> tstring \<Rightarrow> tstring \<Rightarrow> tstring option \<Rightarrow>
   (bool \<times> ('u, 's::len word) outcome) option" where
  "UnzipFile api sys z filename dir unzippedName =
     (case GetFileData_name api sys z filename of
        None \<Rightarrow> None
      | Some out \<Rightarrow>
          (case (data out, len_out out) of
             (Some d, Some len) \<Rightarrow>
               (let filePath = UnzipFile_path filename dir unzippedName;
                    ok = WriteAll sys filePath d (unat len)
                in Some (ok, out\<lparr>events := events out @ [EvWriteAll filePath, EvFree]\<rparr>))
           | _ \<Rightarrow> Some (False, out)))"

section \<open>Archive writer\<close>

record ZipCreatorData =
  pathsAndZipNames :: "tstring list"

text \<open>
  \<^verbatim>\<open>ZipCreator::AddFile\<close>; \<open>nameInZip = None\<close> is the null pointer. The helpers
  \<^verbatim>\<open>path::IsAbsolute\<close> and \<^verbatim>\<open>path::GetBaseName\<close> (utils/FileUtil) are not part of the
  sources and are taken as parameters.
\<close>

definition AddFile ::
  "sys_api \<Rightarrow> (tstring \<Rightarrow> bool) \<Rightarrow> (tstring \<Rightarrow> tstring) \<Rightarrow> ZipCreatorData \<Rightarrow>
   tstring \<Rightarrow> tstring option \<Rightarrow> bool \<times> ZipCreatorData" where
  "AddFile sys IsAbsolute GetBaseName d filePath nameInZip =
     (if \<not> Exists sys filePath then (False, d)
      else
        (let d1 = d\<lparr>pathsAndZipNames := pathsAndZipNames d @ [filePath]\<rparr>;
             nameInZip' =
               (case nameInZip of
                  None \<Rightarrow> (if IsAbsolute filePath then GetBaseName filePath else filePath)
                | Some n \<Rightarrow> n)
         in (True, d1\<lparr>pathsAndZipNames := pathsAndZipNames d1 @ [nameInZip']\<rparr>)))"

text \<open>
  Modelled from the spec: \<^verbatim>\<open>path::IsSep\<close>, \<^verbatim>\<open>path::GetBaseName\<close> and
  \<^verbatim>\<open>path::IsAbsolute\<close> as the spec uses the words: \<open>/\<close> and \<open>\\<close> separate the parts
  of a path, the base name is what follows the last separator, and a path is absolute
  when it starts at a root (a leading separator) or at a drive (\<open>X:\<close>).
\<close>

definition path_IsSep :: "TCHAR \<Rightarrow> bool" where
  "path_IsSep c = (c = 0x5C \<or> c = 0x2F)"

definition path_GetBaseName :: "tstring \<Rightarrow> tstring" where
  "path_GetBaseName p = rev (takeWhile (\<lambda>c. \<not> path_IsSep c) (rev p))"

definition path_IsAbsolute :: "tstring \<Rightarrow> bool" where
  "path_IsAbsolute p =
     (case p of
        [] \<Rightarrow> False
      | c # cs \<Rightarrow> path_IsSep c \<or> (case cs of [] \<Rightarrow> False | c' # _ \<Rightarrow> c' = 0x3A))"

text \<open>
  The destination path of an extraction as the specification words it: the directory,
  joined by one separator, with the override name or else with the entry name whose
  \<open>/\<close> are translated; only the name is translated.
\<close>

definition spec_extract_path :: "tstring \<Rightarrow> tstring \<Rightarrow> tstring option \<Rightarrow> tstring" where
  "spec_extract_path name destDir overrideName =
     (if destDir \<noteq> [] \<and> last destDir = 0x5C then destDir else destDir @ [0x5C]) @
     (case overrideName of
        Some n \<Rightarrow> n
      | None \<Rightarrow> map (\<lambda>c. if c = 0x2F then 0x5C else c) name)"

text \<open>
  The invariant of the index: the vectors are parallel, and every hash is the quick
  hash of the name at the same position.
\<close>

definition parallel_vectors :: "'u ZipFile \<Rightarrow> bool" where
  "parallel_vectors z =
     (filenameHashes z = map GetQuickHashI (filenames z) \<and>
      length (fileinfo z) = length (filenames z) \<and>
      length (filepos z) = length (filenames z))"

section \<open>An example archive and its environment\<close>

text \<open>
  A codec holding one entry, \<open>dir/file.bin\<close> with the three bytes 1, 2, 3, on which
  every primitive succeeds (\<open>-100\<close> is the end of the directory), and an environment
  where every allocation and write succeeds and one source file exists.
\<close>

definition ex_info :: unz_file_info64 where
  "ex_info = \<lparr>flag = 0, dosDate = 0, uncompressed_size = 3\<rparr>"

definition ex_pos :: unz64_file_pos where
  "ex_pos = \<lparr>pos_in_zip_directory = 0, num_of_file = 0\<rparr>"

definition ex_api :: "unit unz_api" where
  "ex_api =
     \<lparr>unzGetGlobalInfo64 = (\<lambda>u. (0, \<lparr>number_entry = 1, size_comment = 0\<rparr>, u)),
      unzGoToFirstFile = (\<lambda>u. (0, u)),
      unzGoToNextFile = (\<lambda>u. (-100, u)),
      unzGetCurrentFileInfo64 =
        (\<lambda>u n. (0, ex_info, take n (map (\<lambda>c. of_nat (of_char c)) ''dir/file.bin''), u)),
      unzGetFilePos64 = (\<lambda>u. (0, ex_pos, u)),
      unzGoToFilePos64 = (\<lambda>u p. (0, u)),
      unzLocateFile = (\<lambda>u n. (0, u)),
      unzOpenCurrentFilePassword = (\<lambda>u. (0, u)),
      unzReadCurrentFile = (\<lambda>u n. (3, [1, 2, 3], u)),
      unzCloseCurrentFile = (\<lambda>u. (0, u)),
      unzGetGlobalComment = (\<lambda>u n. (0, [], u))\<rparr>"

definition ex_sys :: sys_api where
  "ex_sys =
     \<lparr>FromCodePageBuf = (\<lambda>n bs cp. map ucast (take (n - 1) bs)),
      ToCodePageBuf = (\<lambda>n s cp. map ucast (take (n - 1) s)),
      Alloc_ok = (\<lambda>n. True),
      SAZA_ok = (\<lambda>n. True),
      DosDateTimeToFileTime = (\<lambda>d t. \<lparr>dwLowDateTime = 0, dwHighDateTime = 0\<rparr>),
      LocalFileTimeToFileTime = (\<lambda>ft. Some ft),
      WriteAll = (\<lambda>p d n. True),
      Exists = (\<lambda>p. p = T_lit ''/abs/path/readme.txt'')\<rparr>"

definition ex_zip :: "unit ZipFile" where
  "ex_zip = ZipFile_ctor ex_api ex_sys (Some ())"

text \<open>
  Handles as the enumeration builds them for archives whose entries are named by the
  given strings: the hashes are those of the names.
\<close>

definition index_of_names :: "tstring list \<Rightarrow> unit ZipFile" where
  "index_of_names names =
     \<lparr>uf = Some (), filenames = names, filenameHashes = map GetQuickHashI names,
      fileinfo = map (\<lambda>n. ex_info) names, filepos = map (\<lambda>n. ex_pos) names,
      commentLen = 0\<rparr>"

section \<open>The quick hash and the case of letters\<close>

lemma hash_step_folded:
  "totlower c AND 0xFF = totlower d AND 0xFF \<Longrightarrow> hash_step crc c = hash_step crc d"
  by (simp add: hash_step_def)

lemma GetQuickHashI_loop_folded:
  "list_all2 (\<lambda>x y. totlower x AND 0xFF = totlower y AND 0xFF) a b \<Longrightarrow>
   GetQuickHashI_loop crc a = GetQuickHashI_loop crc b"
proof (induction a b arbitrary: crc rule: list_all2_induct)
  case Nil
  show ?case by simp
next
  case (Cons x xs y ys)
  then show ?case by (simp add: hash_step_folded [of x y])
qed

text \<open>
  C5: two file names that differ only in the case of their characters, that is, names
  of the same length whose characters agree position by position after lower-casing,
  have the same quick hash.
\<close>

theorem GetQuickHashI_case_insensitive:
  "list_all2 (\<lambda>x y. totlower x = totlower y) a b \<Longrightarrow> GetQuickHashI a = GetQuickHashI b"
  unfolding GetQuickHashI_def
  by (rule GetQuickHashI_loop_folded) (erule list_all2_mono, simp)

theorem GetQuickHashI_case_insensitive_witness:
  "list_all2 (\<lambda>x y. totlower x = totlower y) (T_lit ''Report.TXT'') (T_lit ''report.txt'') \<and>
   GetQuickHashI (T_lit ''Report.TXT'') = GetQuickHashI (T_lit ''report.txt'')"
proof -
  have h: "list_all2 (\<lambda>x y. totlower x = totlower y)
             (T_lit ''Report.TXT'') (T_lit ''report.txt'')"
    by code_simp
  show ?thesis using h GetQuickHashI_case_insensitive [OF h] by simp
qed

text \<open>
  C6, as stated, fails: \<open>ba\<close> is a reordering of \<open>ab\<close>, and the two have different
  quick hashes.
\<close>

theorem GetQuickHashI_order_counterexample:
  "mset (T_lit ''ba'') = mset (T_lit ''ab'') \<and>
   GetQuickHashI (T_lit ''ba'') \<noteq> GetQuickHashI (T_lit ''ab'')"
proof
  show "mset (T_lit ''ba'') = mset (T_lit ''ab'')" by (simp add: T_lit_def)
  show "GetQuickHashI (T_lit ''ba'') \<noteq> GetQuickHashI (T_lit ''ab'')" by code_simp
qed

text \<open>
  C6, amended: the quick hash is a function of the sequence, in order, of the low bytes
  of the lower-cased characters; two names with the same such sequence have the same
  32-bit hash.
\<close>

theorem GetQuickHashI_folded_sequence:
  "map (\<lambda>c. totlower c AND 0xFF) a = map (\<lambda>c. totlower c AND 0xFF) b \<Longrightarrow>
   GetQuickHashI a = GetQuickHashI b"
proof -
  assume "map (\<lambda>c. totlower c AND 0xFF) a = map (\<lambda>c. totlower c AND 0xFF) b"
  then have "list_all2 (\<lambda>x y. totlower x AND 0xFF = totlower y AND 0xFF) a b"
    by (simp add: list_all2_conv_all_nth list_eq_iff_nth_eq)
  then show ?thesis
    unfolding GetQuickHashI_def by (rule GetQuickHashI_loop_folded)
qed

theorem GetQuickHashI_folded_sequence_witness:
  "map (\<lambda>c. totlower c AND 0xFF) (T_lit ''aA'') =
   map (\<lambda>c. totlower c AND 0xFF) (T_lit ''Aa'') \<and>
   GetQuickHashI (T_lit ''aA'') = GetQuickHashI (T_lit ''Aa'')"
proof -
  have h: "map (\<lambda>c. totlower c AND 0xFF) (T_lit ''aA'') =
           map (\<lambda>c. totlower c AND 0xFF) (T_lit ''Aa'')"
    by code_simp
  show ?thesis using h GetQuickHashI_folded_sequence [OF h] by simp
qed

section \<open>The lookup loop\<close>

lemma Find_loop_hit: "i < length els \<Longrightarrow> els ! i = el \<Longrightarrow> Find_loop els el i = int i"
  by (simp add: Find_loop.simps)

lemma Find_loop_miss: "length els \<le> i \<Longrightarrow> Find_loop els el i = -1"
  by (simp add: Find_loop.simps)

lemma Find_loop_skip:
  "i < length els \<Longrightarrow> els ! i \<noteq> el \<Longrightarrow> Find_loop els el i = Find_loop els el (Suc i)"
  by (simp add: Find_loop.simps [of els el i])

lemma Find_loop_least:
  "Find_loop els el i = -1 \<and> (\<forall>k. i \<le> k \<and> k < length els \<longrightarrow> els ! k \<noteq> el) \<or>
   (\<exists>j. Find_loop els el i = int j \<and> i \<le> j \<and> j < length els \<and> els ! j = el \<and>
        (\<forall>k. i \<le> k \<and> k < j \<longrightarrow> els ! k \<noteq> el))"
proof (induction els el i rule: Find_loop.induct)
  case (1 els el i)
  show ?case
  proof (cases "i < length els")
    case False
    then show ?thesis by (auto simp: Find_loop_miss)
  next
    case inr: True
    show ?thesis
    proof (cases "els ! i = el")
      case True
      with inr have "Find_loop els el i = int i" by (simp add: Find_loop_hit)
      with inr True show ?thesis by auto
    next
      case False
      with inr have eq: "Find_loop els el i = Find_loop els el (Suc i)" by (rule Find_loop_skip)
      from "1.IH" [OF inr False] show ?thesis
        unfolding eq
      proof (elim disjE exE conjE)
        assume a: "Find_loop els el (Suc i) = -1"
          and b: "\<forall>k. Suc i \<le> k \<and> k < length els \<longrightarrow> els ! k \<noteq> el"
        have "\<forall>k. i \<le> k \<and> k < length els \<longrightarrow> els ! k \<noteq> el"
        proof (intro allI impI)
          fix k assume "i \<le> k \<and> k < length els"
          then show "els ! k \<noteq> el" using b False by (cases "k = i") auto
        qed
        with a show "Find_loop els el (Suc i) = -1 \<and> (\<forall>k. i \<le> k \<and> k < length els \<longrightarrow> els ! k \<noteq> el) \<or>
   (\<exists>j. Find_loop els el (Suc i) = int j \<and> i \<le> j \<and> j < length els \<and> els ! j = el \<and>
        (\<forall>k. i \<le> k \<and> k < j \<longrightarrow> els ! k \<noteq> el))" by simp
      next
        fix j
        assume a: "Find_loop els el (Suc i) = int j" "Suc i \<le> j" "j < length els" "els ! j = el"
          and b: "\<forall>k. Suc i \<le> k \<and> k < j \<longrightarrow> els ! k \<noteq> el"
        have "\<forall>k. i \<le> k \<and> k < j \<longrightarrow> els ! k \<noteq> el"
        proof (intro allI impI)
          fix k assume "i \<le> k \<and> k < j"
          then show "els ! k \<noteq> el" using b False by (cases "k = i") auto
        qed
        with a show "Find_loop els el (Suc i) = -1 \<and> (\<forall>k. i \<le> k \<and> k < length els \<longrightarrow> els ! k \<noteq> el) \<or>
   (\<exists>j. Find_loop els el (Suc i) = int j \<and> i \<le> j \<and> j < length els \<and> els ! j = el \<and>
        (\<forall>k. i \<le> k \<and> k < j \<longrightarrow> els ! k \<noteq> el))" by auto
      qed
    qed
  qed
qed

lemma Find_again:
  assumes "Find els el i = i'" "i' \<noteq> -1"
  shows "Find els el i' = i'"
proof -
  from Find_loop_least [of els el "nat i"] assms
  obtain j where j: "i' = int j" "j < length els" "els ! j = el"
    by (auto simp: Find_def)
  then show ?thesis by (simp add: Find_def Find_loop_hit)
qed

lemma GetFileIndex_loop_Some_not_stuck:
  assumes "GetFileIndex_loop z f h i = Some y"
  shows "\<not> (Find (filenameHashes z) h i = i \<and> i \<noteq> -1 \<and> \<not> EqI f (filenames z ! nat i))"
proof (rule GetFileIndex_loop.raw_induct
    [where P = "\<lambda>z f h i y. \<not> (Find (filenameHashes z) h i = i \<and> i \<noteq> -1 \<and>
                  \<not> EqI f (filenames z ! nat i))", OF _ assms])
  fix loop :: "'a ZipFile \<Rightarrow> tstring \<Rightarrow> uint32_t \<Rightarrow> int \<Rightarrow> int option"
  fix z f h i y
  assume IH: "\<And>z f h i y. loop z f h i = Some y \<Longrightarrow>
     \<not> (Find (filenameHashes z) h i = i \<and> i \<noteq> -1 \<and> \<not> EqI f (filenames z ! nat i))"
  assume step: "(let i' = Find (filenameHashes z) h i in
      if i' \<noteq> -1 then
        (if EqI f (filenames z ! nat i') then Some i'
         else loop z f h i')
      else Some (-1)) = Some y"
  show "\<not> (Find (filenameHashes z) h i = i \<and> i \<noteq> -1 \<and> \<not> EqI f (filenames z ! nat i))"
  proof
    assume st: "Find (filenameHashes z) h i = i \<and> i \<noteq> -1 \<and> \<not> EqI f (filenames z ! nat i)"
    with step have "loop z f h i = Some y" by (simp add: Let_def)
    from IH [OF this] st show False by simp
  qed
qed

lemma GetFileIndex_loop_stuck:
  assumes "Find (filenameHashes z) h i = i" "i \<noteq> -1" "\<not> EqI f (filenames z ! nat i)"
  shows "GetFileIndex_loop z f h i = None"
proof (cases "GetFileIndex_loop z f h i")
  case None
  then show ?thesis .
next
  case (Some y)
  from GetFileIndex_loop_Some_not_stuck [OF Some] assms show ?thesis by simp
qed

lemma GetFileIndex_loop_first_candidate:
  "GetFileIndex_loop z f h i =
     (let i' = Find (filenameHashes z) h i in
      if i' = -1 then Some (-1)
      else if EqI f (filenames z ! nat i') then Some i' else None)"
proof -
  define i' where "i' = Find (filenameHashes z) h i"
  show ?thesis
  proof (cases "i' \<noteq> -1 \<and> \<not> EqI f (filenames z ! nat i')")
    case True
    then have again: "Find (filenameHashes z) h i' = i'"
      using Find_again [of "filenameHashes z" h i i'] by (simp add: i'_def)
    have "GetFileIndex_loop z f h i' = None"
      using again True by (intro GetFileIndex_loop_stuck) simp_all
    then show ?thesis
      using True by (subst GetFileIndex_loop.simps) (simp add: Let_def i'_def [symmetric])
  next
    case False
    then show ?thesis
      by (subst GetFileIndex_loop.simps) (auto simp: Let_def i'_def [symmetric])
  qed
qed

lemma EqI_same_hash: "EqI a b \<Longrightarrow> GetQuickHashI a = GetQuickHashI b"
proof -
  assume "EqI a b"
  then have "list_all2 (\<lambda>x y. totlower x AND 0xFF = totlower y AND 0xFF) a b"
    by (simp add: EqI_def list_all2_conv_all_nth list_eq_iff_nth_eq)
  then show ?thesis
    unfolding GetQuickHashI_def by (rule GetQuickHashI_loop_folded)
qed

text \<open>
  Whenever the lookup returns on a handle whose hashes are those of its names, it
  returns the lowest index of a matching name, or \<open>-1\<close> when no name matches.
\<close>

lemma GetFileIndex_loop_returns_lowest:
  assumes inv: "filenameHashes z = map GetQuickHashI (filenames z)"
    and ret: "GetFileIndex_loop z f (GetQuickHashI f) 0 = Some r"
  shows "(r = -1 \<and> (\<forall>k. k < length (filenames z) \<longrightarrow> \<not> EqI f (filenames z ! k))) \<or>
         (\<exists>j. j < length (filenames z) \<and> r = int j \<and> EqI f (filenames z ! j) \<and>
              (\<forall>k. k < j \<longrightarrow> \<not> EqI f (filenames z ! k)))"
proof -
  let ?hs = "filenameHashes z" and ?h = "GetQuickHashI f"
  have differ: "\<not> EqI f (filenames z ! k)" if "k < length (filenames z)" "?hs ! k \<noteq> ?h" for k
    using that EqI_same_hash [of f "filenames z ! k"] by (auto simp: inv)
  have len: "length ?hs = length (filenames z)" by (simp add: inv)
  from Find_loop_least [of ?hs ?h 0] show ?thesis
  proof (elim disjE exE conjE)
    assume none: "Find_loop ?hs ?h 0 = -1"
      and all: "\<forall>k. 0 \<le> k \<and> k < length ?hs \<longrightarrow> ?hs ! k \<noteq> ?h"
    from ret none have "r = -1"
      by (simp add: GetFileIndex_loop_first_candidate [of z f ?h 0] Find_def)
    moreover have "\<forall>k. k < length (filenames z) \<longrightarrow> \<not> EqI f (filenames z ! k)"
      using all differ len by simp
    ultimately show ?thesis by simp
  next
    fix j
    assume hit: "Find_loop ?hs ?h 0 = int j" and j: "j < length ?hs"
      and before: "\<forall>k. 0 \<le> k \<and> k < j \<longrightarrow> ?hs ! k \<noteq> ?h"
    from ret hit have "EqI f (filenames z ! j) \<and> r = int j"
      by (simp add: GetFileIndex_loop_first_candidate [of z f ?h 0] Find_def split: if_splits)
    moreover have "\<forall>k. k < j \<longrightarrow> \<not> EqI f (filenames z ! k)"
      using before differ j len by simp
    ultimately show ?thesis using j len by auto
  qed
qed

text \<open>
  C1: the lookup is to return the lowest index whose stored name equals the given name
  without regard to case. On the archive with the entries \<open>0--10\<close> and \<open>73ja5\<close>, whose
  names have the same quick hash, the name \<open>73ja5\<close> matches entry 1 and not entry 0,
  and the lookup of \<open>73ja5\<close> never returns.
\<close>

theorem GetFileIndex_collision_before_match:
  "\<not> EqI (T_lit ''73ja5'') (filenames (index_of_names [T_lit ''0--10'', T_lit ''73ja5'']) ! 0) \<and>
   EqI (T_lit ''73ja5'') (filenames (index_of_names [T_lit ''0--10'', T_lit ''73ja5'']) ! 1) \<and>
   GetFileIndex (index_of_names [T_lit ''0--10'', T_lit ''73ja5'']) (T_lit ''73ja5'') =
     (None :: 32 word option)"
proof -
  let ?z = "index_of_names [T_lit ''0--10'', T_lit ''73ja5'']"
  let ?h = "GetQuickHashI (T_lit ''73ja5'')"
  have 1: "Find (filenameHashes ?z) ?h 0 = 0" by code_simp
  have 2: "\<not> EqI (T_lit ''73ja5'') (filenames ?z ! nat 0)" by code_simp
  have 3: "EqI (T_lit ''73ja5'') (filenames ?z ! 1)" by code_simp
  have "GetFileIndex_loop ?z (T_lit ''73ja5'') ?h 0 = None"
    using 1 _ 2 by (rule GetFileIndex_loop_stuck) simp
  then have "GetFileIndex ?z (T_lit ''73ja5'') = (None :: 32 word option)"
    by (simp add: GetFileIndex_def)
  with 2 3 show ?thesis by simp
qed

text \<open>
  C2: the lookup is to terminate for every handle and name. On the archive with the
  single entry \<open>0--10\<close> the lookup of \<open>73ja5\<close>, a different name with the same quick
  hash, never returns: the scan finds position 0 again and again.
\<close>

theorem GetFileIndex_collision_diverges:
  "GetQuickHashI (T_lit ''73ja5'') = GetQuickHashI (T_lit ''0--10'') \<and>
   \<not> EqI (T_lit ''73ja5'') (T_lit ''0--10'') \<and>
   GetFileIndex (index_of_names [T_lit ''0--10'']) (T_lit ''73ja5'') = (None :: 32 word option)"
proof -
  let ?z = "index_of_names [T_lit ''0--10'']"
  let ?h = "GetQuickHashI (T_lit ''73ja5'')"
  have 1: "Find (filenameHashes ?z) ?h 0 = 0" by code_simp
  have 2: "\<not> EqI (T_lit ''73ja5'') (filenames ?z ! nat 0)" by code_simp
  have "GetFileIndex_loop ?z (T_lit ''73ja5'') ?h 0 = None"
    using 1 _ 2 by (rule GetFileIndex_loop_stuck) simp
  then have "GetFileIndex ?z (T_lit ''73ja5'') = (None :: 32 word option)"
    by (simp add: GetFileIndex_def)
  moreover have "GetQuickHashI (T_lit ''73ja5'') = GetQuickHashI (T_lit ''0--10'')"
    by code_simp
  moreover have "\<not> EqI (T_lit ''73ja5'') (T_lit ''0--10'')" by code_simp
  ultimately show ?thesis by simp
qed

section \<open>Reading an entry: sizes, short reads and the integrity check\<close>

lemma guard_conv:
  fixes usize :: "64 word"
  assumes "2 ^ LENGTH('s::len) \<le> unat usize"
  shows "unat (ucast usize :: 's word) \<noteq> unat usize"
proof
  assume eq: "unat (ucast usize :: 's word) = unat usize"
  have "unat (ucast usize :: 's word) < 2 ^ LENGTH('s)" by (rule unsigned_less)
  then have "unat usize < 2 ^ LENGTH('s)" by (simp only: eq)
  with assms show False by linarith
qed

lemma unat_two:
  assumes L: "2 \<le> LENGTH('s::len)"
  shows "unat (2 :: 's word) = 2"
proof -
  have "(2::nat) ^ 2 \<le> 2 ^ LENGTH('s)" using L by (rule power_increasing) simp
  then have lt: "(2::nat) < 2 ^ LENGTH('s)" by simp
  have "unat (2 :: 's word) = 2 mod 2 ^ LENGTH('s)" by (simp only: unat_numeral)
  also have "\<dots> = 2" using lt by (rule mod_less)
  finally show ?thesis .
qed

lemma guard_pad:
  fixes len2 :: "'s::len word"
  assumes L: "2 \<le> LENGTH('s)" and w: "2 ^ LENGTH('s) \<le> unat len2 + 2"
  shows "len2 + 2 < 2"
proof -
  have two: "unat (2 :: 's word) = 2" using L by (rule unat_two)
  have lt: "unat len2 < 2 ^ LENGTH('s)" by (rule unsigned_less)
  have "unat (len2 + 2) = unat len2 + 2 - 2 ^ LENGTH('s)"
    using w by (simp only: unat_plus_if' [of len2 2] two not_less [symmetric] if_False)
  then have "unat (len2 + 2) < 2" using lt by linarith
  then show ?thesis by (simp only: word_less_nat_alt two)
qed

lemma ucast_small:
  fixes usize :: "64 word"
  assumes "unat usize < 2 ^ LENGTH('s::len)"
  shows "unat (ucast usize :: 's word) = unat usize"
  using assms by (simp add: unsigned_ucast_eq take_bit_nat_eq_self)

lemma guard_fires:
  fixes usize :: "64 word"
  assumes L: "2 \<le> LENGTH('s::len)" and w: "2 ^ LENGTH('s) \<le> unat usize + 2"
  shows "unat (ucast usize :: 's word) \<noteq> unat usize \<or> (ucast usize :: 's word) + 2 < 2"
proof (cases "unat usize < 2 ^ LENGTH('s)")
  case True
  then have "unat (ucast usize :: 's word) = unat usize" by (rule ucast_small)
  with w have "2 ^ LENGTH('s) \<le> unat (ucast usize :: 's word) + 2" by simp
  with L have "(ucast usize :: 's word) + 2 < 2" by (rule guard_pad)
  then show ?thesis ..
next
  case False
  then have "2 ^ LENGTH('s) \<le> unat usize" by simp
  then have "unat (ucast usize :: 's word) \<noteq> unat usize" by (rule guard_conv)
  then show ?thesis ..
qed

lemma guard_passes:
  fixes usize :: "64 word"
  assumes L: "2 \<le> LENGTH('s::len)" and w: "unat usize + 2 < 2 ^ LENGTH('s)"
  shows "\<not> (unat (ucast usize :: 's word) \<noteq> unat usize \<or> (ucast usize :: 's word) + 2 < 2)"
    and "unat ((ucast usize :: 's word) + 2) = unat usize + 2"
proof -
  have two: "unat (2 :: 's word) = 2" using L by (rule unat_two)
  from w have "unat usize < 2 ^ LENGTH('s)" by simp
  then have eq: "unat (ucast usize :: 's word) = unat usize" by (rule ucast_small)
  have sum: "unat ((ucast usize :: 's word) + 2) = unat usize + 2"
    using w by (simp only: unat_plus_if' [of "ucast usize :: 's word" 2] two eq if_True)
  then show "unat ((ucast usize :: 's word) + 2) = unat usize + 2" .
  have "\<not> (ucast usize :: 's word) + 2 < 2"
    by (simp add: word_less_nat_alt two sum)
  with eq show "\<not> (unat (ucast usize :: 's word) \<noteq> unat usize \<or> (ucast usize :: 's word) + 2 < 2)"
    by simp
qed

lemma ex_zip_eq:
  "ex_zip = \<lparr>uf = Some (), filenames = [T_lit ''dir/file.bin''],
            filenameHashes = [GetQuickHashI (T_lit ''dir/file.bin'')],
            fileinfo = [ex_info], filepos = [ex_pos], commentLen = 0\<rparr>"
  by code_simp

text \<open>
  Whenever \<open>GetFileData\<close> calls the allocator, it asks for exactly the uncompressed
  size plus the two bytes of padding.
\<close>

lemma no_wrap_sum:
  fixes len2 :: "'s::len word"
  assumes L: "2 \<le> LENGTH('s)" and nw: "\<not> len2 + 2 < 2"
  shows "unat (len2 + 2) = unat len2 + 2"
proof (rule ccontr)
  assume neq: "unat (len2 + 2) \<noteq> unat len2 + 2"
  have two: "unat (2 :: 's word) = 2" using L by (rule unat_two)
  have "unat len2 + unat (2 :: 's word) < 2 ^ LENGTH('s) \<longleftrightarrow>
        unat (len2 + 2) = unat len2 + unat (2 :: 's word)"
    by (rule unat_add_lem)
  then have "unat len2 + 2 < 2 ^ LENGTH('s) \<longleftrightarrow> unat (len2 + 2) = unat len2 + 2"
    by (simp only: two)
  with neq have "\<not> unat len2 + 2 < 2 ^ LENGTH('s)" by blast
  then have "2 ^ LENGTH('s) \<le> unat len2 + 2" by simp
  with L have "len2 + 2 < 2" by (rule guard_pad)
  with nw show False ..
qed

lemma read_entry_events:
  "EvAlloc n \<in> set (events (read_entry api sys z u len2)) \<Longrightarrow> n = unat (len2 + 2)"
  by (auto simp: read_entry_def Let_def split: prod.splits if_splits)

lemma GetFileData_alloc_size:
  fixes fileindex :: "'s::len word"
  assumes L: "2 \<le> LENGTH('s)"
    and ev: "EvAlloc n \<in> set (events (GetFileData api sys z fileindex))"
  shows "n = unat (uncompressed_size (fileinfo z ! unat fileindex)) + 2"
proof -
  let ?usize = "uncompressed_size (fileinfo z ! unat fileindex)"
  let ?len2 = "ucast ?usize :: 's word"
  from ev have g: "unat ?len2 = unat ?usize \<and> \<not> ?len2 + 2 < 2"
    by (auto simp: GetFileData_def Let_def split: option.splits prod.splits if_splits)
  from ev have "\<exists>u. EvAlloc n \<in> set (events (read_entry api sys z u ?len2))"
    by (auto simp: GetFileData_def Let_def split: option.splits prod.splits if_splits)
  then have "n = unat (?len2 + 2)" by (auto dest: read_entry_events)
  also have "\<dots> = unat ?len2 + 2" using L g by (intro no_wrap_sum) simp_all
  finally show ?thesis using g by simp
qed

text \<open>
  C3: when the reported uncompressed size of the entry together with the two bytes of
  terminator padding does not fit the platform's size type (the conversion of the size
  wraps, or adding the padding wraps), \<open>GetFileData\<close> returns null and makes no call
  to the allocator at all; the size type has at least two bits.
\<close>

theorem GetFileData_overflow_guard:
  fixes fileindex :: "'s::len word"
  assumes L: "2 \<le> LENGTH('s)"
    and w: "2 ^ LENGTH('s) \<le> unat (uncompressed_size (fileinfo z ! unat fileindex)) + 2"
  shows "data (GetFileData api sys z fileindex) = None \<and>
         events (GetFileData api sys z fileindex) = []"
proof -
  note g = guard_fires [OF L w]
  show ?thesis
    unfolding GetFileData_def using g
    by (simp add: Let_def split: option.split prod.split)
qed

theorem GetFileData_overflow_guard_witness:
  "2 \<le> LENGTH(32) \<and>
   2 ^ LENGTH(32) \<le>
     unat (uncompressed_size
       (fileinfo (ex_zip\<lparr>fileinfo := [ex_info\<lparr>uncompressed_size := 0xFFFFFFFF\<rparr>]\<rparr>) !
         unat (0 :: 32 word))) + 2 \<and>
   data (GetFileData ex_api ex_sys
          (ex_zip\<lparr>fileinfo := [ex_info\<lparr>uncompressed_size := 0xFFFFFFFF\<rparr>]\<rparr>) (0 :: 32 word)) = None \<and>
   events (GetFileData ex_api ex_sys
          (ex_zip\<lparr>fileinfo := [ex_info\<lparr>uncompressed_size := 0xFFFFFFFF\<rparr>]\<rparr>) (0 :: 32 word)) = []"
proof -
  let ?z = "ex_zip\<lparr>fileinfo := [ex_info\<lparr>uncompressed_size := 0xFFFFFFFF\<rparr>]\<rparr>"
  have L: "2 \<le> LENGTH(32)" by simp
  have w: "2 ^ LENGTH(32) \<le> unat (uncompressed_size (fileinfo ?z ! unat (0 :: 32 word))) + 2"
    by simp
  show ?thesis
    using L w GetFileData_overflow_guard [OF L w, of ex_api ex_sys] by simp
qed

text \<open>
  On an open handle, for an entry in range that is located and opened, whose size with
  padding fits the size type and whose buffer is allocated: if the value returned by
  the read, as stored in \<^verbatim>\<open>readBytes\<close>, differs from the uncompressed size, or if
  closing the entry reports an error (whatever the count), \<open>GetFileData\<close> returns null
  and the buffer it allocated is freed; if the value equals the size and closing
  succeeds, the buffer is returned and the size is stored through \<^verbatim>\<open>len\<close>.
\<close>

lemma GetFileData_count_or_close:
  fixes fileindex :: "'s::len word"
  assumes L: "2 \<le> LENGTH('s)"
    and open_: "uf z = Some u"
    and range: "unat fileindex < length (filenames z)"
    and loc: "locate_entry api sys z u (unat fileindex) = (UNZ_OK, u1)"
    and opn: "unzOpenCurrentFilePassword api u1 = (UNZ_OK, u2)"
    and usz: "usize = uncompressed_size (fileinfo z ! unat fileindex)"
    and fits: "unat usize + 2 < 2 ^ LENGTH('s)"
    and alloc: "Alloc_ok sys (unat usize + 2)"
    and rd: "unzReadCurrentFile api u2 (ucast (ucast usize :: 's word)) = (readBytes, bytes, u3)"
    and cl: "unzCloseCurrentFile api u3 = (e, u4)"
  shows "(unat readBytes \<noteq> unat usize \<or> e \<noteq> UNZ_OK \<longrightarrow>
            data (GetFileData api sys z fileindex) = None \<and>
            events (GetFileData api sys z fileindex) = [EvAlloc (unat usize + 2), EvFree]) \<and>
         (unat readBytes = unat usize \<and> e = UNZ_OK \<longrightarrow>
            data (GetFileData api sys z fileindex) = Some (take (unat usize) bytes @ [0, 0]) \<and>
            len_out (GetFileData api sys z fileindex) = Some (ucast usize) \<and>
            events (GetFileData api sys z fileindex) = [EvAlloc (unat usize + 2)])"
proof -
  let ?len2 = "ucast usize :: 's word"
  note gp = guard_passes [OF L fits]
  from fits have "unat usize < 2 ^ LENGTH('s)" by simp
  then have eq: "unat ?len2 = unat usize" by (rule ucast_small)
  have G: "GetFileData api sys z fileindex = read_entry api sys z u2 ?len2"
    unfolding GetFileData_def using open_ range loc opn gp(1)
    by (simp add: Let_def usz [symmetric] UNZ_OK_def)
  show ?thesis
    unfolding G read_entry_def using alloc rd cl
    by (auto simp: Let_def gp(2) eq)
qed

text \<open>
  A read that returns 2 of 3 bytes, and an entry whose closing reports a CRC error
  (\<open>-105\<close>) after an exact read.
\<close>

lemma GetFileData_count_or_close_example:
  "data (GetFileData (ex_api\<lparr>unzReadCurrentFile := (\<lambda>u n. (2, [1, 2], u))\<rparr>) ex_sys ex_zip
           (0 :: 32 word)) = None \<and>
   events (GetFileData (ex_api\<lparr>unzReadCurrentFile := (\<lambda>u n. (2, [1, 2], u))\<rparr>) ex_sys ex_zip
           (0 :: 32 word)) = [EvAlloc 5, EvFree] \<and>
   data (GetFileData (ex_api\<lparr>unzCloseCurrentFile := (\<lambda>u. (-105, u))\<rparr>) ex_sys ex_zip
           (0 :: 32 word)) = None \<and>
   events (GetFileData (ex_api\<lparr>unzCloseCurrentFile := (\<lambda>u. (-105, u))\<rparr>) ex_sys ex_zip
           (0 :: 32 word)) = [EvAlloc 5, EvFree]"
proof -
  let ?short = "ex_api\<lparr>unzReadCurrentFile := (\<lambda>u n. (2, [1, 2], u))\<rparr>"
  let ?crc = "ex_api\<lparr>unzCloseCurrentFile := (\<lambda>u. (-105, u))\<rparr>"
  have L: "2 \<le> LENGTH(32)" by simp
  have open_: "uf ex_zip = Some ()" by (simp add: ex_zip_eq)
  have range: "unat (0 :: 32 word) < length (filenames ex_zip)" by (simp add: ex_zip_eq)
  have usz: "(3 :: 64 word) = uncompressed_size (fileinfo ex_zip ! unat (0 :: 32 word))"
    by (simp add: ex_zip_eq ex_info_def)
  have fits: "unat (3 :: 64 word) + 2 < 2 ^ LENGTH(32)" by simp
  have alloc: "Alloc_ok ex_sys (unat (3 :: 64 word) + 2)" by (simp add: ex_sys_def)
  have loc1: "locate_entry ?short ex_sys ex_zip () (unat (0 :: 32 word)) = (UNZ_OK, ())"
    by code_simp
  have opn1: "unzOpenCurrentFilePassword ?short () = (UNZ_OK, ())" by code_simp
  have rd1: "unzReadCurrentFile ?short () (ucast (ucast (3 :: 64 word) :: 32 word))
               = (2, [1, 2], ())"
    by (simp add: ex_api_def)
  have cl1: "unzCloseCurrentFile ?short () = (0, ())" by (simp add: ex_api_def)
  have loc2: "locate_entry ?crc ex_sys ex_zip () (unat (0 :: 32 word)) = (UNZ_OK, ())"
    by code_simp
  have opn2: "unzOpenCurrentFilePassword ?crc () = (UNZ_OK, ())" by code_simp
  have rd2: "unzReadCurrentFile ?crc () (ucast (ucast (3 :: 64 word) :: 32 word))
               = (3, [1, 2, 3], ())"
    by (simp add: ex_api_def)
  have cl2: "unzCloseCurrentFile ?crc () = (-105, ())" by (simp add: ex_api_def)
  show ?thesis
    using GetFileData_count_or_close [OF L open_ range loc1 opn1 usz fits alloc rd1 cl1]
      GetFileData_count_or_close [OF L open_ range loc2 opn2 usz fits alloc rd2 cl2]
    by (simp add: UNZ_OK_def)
qed

text \<open>
  C4: a read that delivers fewer bytes than the uncompressed size is to be treated as
  failure. The code does not do so when the read fails and its return value, an error
  code that is negative as an \<^verbatim>\<open>int\<close>, equals the size once stored in the
  \<^verbatim>\<open>unsigned int readBytes\<close>: with the entry closed without error, \<open>GetFileData\<close>
  returns the buffer, whose payload was not delivered, stores the full size through
  \<^verbatim>\<open>len\<close> and frees nothing. On a 64-bit size type this happens for an entry of
  size \<open>0xFFFFFFFF\<close> whose read returns \<open>-1\<close>.
\<close>

theorem GetFileData_failed_read_accepted:
  fixes fileindex :: "'s::len word"
  assumes L: "2 \<le> LENGTH('s)"
    and open_: "uf z = Some u"
    and range: "unat fileindex < length (filenames z)"
    and loc: "locate_entry api sys z u (unat fileindex) = (UNZ_OK, u1)"
    and opn: "unzOpenCurrentFilePassword api u1 = (UNZ_OK, u2)"
    and usz: "usize = uncompressed_size (fileinfo z ! unat fileindex)"
    and fits: "unat usize + 2 < 2 ^ LENGTH('s)"
    and alloc: "Alloc_ok sys (unat usize + 2)"
    and rd: "unzReadCurrentFile api u2 (ucast (ucast usize :: 's word)) = (readBytes, bytes, u3)"
    and failed: "sint readBytes < 0"
    and fewer: "length bytes < unat usize"
    and same: "unat readBytes = unat usize"
    and cl: "unzCloseCurrentFile api u3 = (UNZ_OK, u4)"
  shows "data (GetFileData api sys z fileindex) = Some (bytes @ [0, 0]) \<and>
         len_out (GetFileData api sys z fileindex) = Some (ucast usize) \<and>
         events (GetFileData api sys z fileindex) = [EvAlloc (unat usize + 2)]"
  using GetFileData_count_or_close [OF L open_ range loc opn usz fits alloc rd cl] same fewer
  by simp

theorem GetFileData_failed_read_accepted_witness:
  "sint (0xFFFFFFFF :: 32 word) = -1 \<and>
   data (GetFileData (ex_api\<lparr>unzReadCurrentFile := (\<lambda>u n. (0xFFFFFFFF, [], u))\<rparr>) ex_sys
           (ex_zip\<lparr>fileinfo := [ex_info\<lparr>uncompressed_size := 0xFFFFFFFF\<rparr>]\<rparr>)
           (0 :: 64 word)) = Some [0, 0] \<and>
   len_out (GetFileData (ex_api\<lparr>unzReadCurrentFile := (\<lambda>u n. (0xFFFFFFFF, [], u))\<rparr>) ex_sys
           (ex_zip\<lparr>fileinfo := [ex_info\<lparr>uncompressed_size := 0xFFFFFFFF\<rparr>]\<rparr>)
           (0 :: 64 word)) = Some 0xFFFFFFFF \<and>
   events (GetFileData (ex_api\<lparr>unzReadCurrentFile := (\<lambda>u n. (0xFFFFFFFF, [], u))\<rparr>) ex_sys
           (ex_zip\<lparr>fileinfo := [ex_info\<lparr>uncompressed_size := 0xFFFFFFFF\<rparr>]\<rparr>)
           (0 :: 64 word)) = [EvAlloc 4294967297]"
proof -
  let ?api = "ex_api\<lparr>unzReadCurrentFile := (\<lambda>u n. (0xFFFFFFFF, [], u))\<rparr>"
  let ?z = "ex_zip\<lparr>fileinfo := [ex_info\<lparr>uncompressed_size := 0xFFFFFFFF\<rparr>]\<rparr>"
  have L: "2 \<le> LENGTH(64)" by simp
  have open_: "uf ?z = Some ()" by (simp add: ex_zip_eq)
  have range: "unat (0 :: 64 word) < length (filenames ?z)" by (simp add: ex_zip_eq)
  have usz: "(0xFFFFFFFF :: 64 word) = uncompressed_size (fileinfo ?z ! unat (0 :: 64 word))"
    by simp
  have fits: "unat (0xFFFFFFFF :: 64 word) + 2 < 2 ^ LENGTH(64)" by simp
  have alloc: "Alloc_ok ex_sys (unat (0xFFFFFFFF :: 64 word) + 2)" by (simp add: ex_sys_def)
  have loc: "locate_entry ?api ex_sys ?z () (unat (0 :: 64 word)) = (UNZ_OK, ())"
    by code_simp
  have opn: "unzOpenCurrentFilePassword ?api () = (UNZ_OK, ())" by code_simp
  have rd: "unzReadCurrentFile ?api () (ucast (ucast (0xFFFFFFFF :: 64 word) :: 64 word))
              = (0xFFFFFFFF, [], ())"
    by (simp add: ex_api_def)
  have failed: "sint (0xFFFFFFFF :: 32 word) < 0" by simp
  have fewer: "length ([] :: byte list) < unat (0xFFFFFFFF :: 64 word)" by simp
  have same: "unat (0xFFFFFFFF :: 32 word) = unat (0xFFFFFFFF :: 64 word)" by simp
  have cl: "unzCloseCurrentFile ?api () = (UNZ_OK, ())" by code_simp
  show ?thesis
    using GetFileData_failed_read_accepted
      [OF L open_ range loc opn usz fits alloc rd failed fewer same cl]
    by simp
qed

lemma read_entry_len_out:
  "data (read_entry api sys z u len2) = Some d \<Longrightarrow> \<exists>l. len_out (read_entry api sys z u len2) = Some l"
  by (auto simp: read_entry_def Let_def split: prod.splits if_splits)

lemma GetFileData_len_out:
  "data (GetFileData api sys z fileindex) = Some d \<Longrightarrow>
   \<exists>l. len_out (GetFileData api sys z fileindex) = Some l"
  by (auto simp: GetFileData_def Let_def split: option.splits prod.splits if_splits
      dest: read_entry_len_out)

lemma Find_Nil: "Find [] el i = -1"
  by (simp add: Find_def Find_loop.simps)

lemma GetFileIndex_no_hashes:
  "filenameHashes z = [] \<Longrightarrow> GetFileIndex z name = Some NOT_FOUND"
  by (simp add: GetFileIndex_def GetFileIndex_loop.simps [of z] Find_Nil NOT_FOUND_def)

text \<open>
  C7: on the handle of a failed open every query reports nothing: \<open>GetFileData\<close>
  returns null (by index and by name) without touching the allocator, \<open>GetFileTime\<close>
  returns the invalid time stamp (by index and by name), \<open>GetComment\<close> returns null,
  the entry count is 0, no index has a name and no name has an index.
\<close>

theorem closed_handle_queries:
  "(let z = ZipFile_ctor api sys None in
     data (GetFileData api sys z (i :: 's::len word)) = None \<and>
     events (GetFileData api sys z i) = [] \<and>
     GetFileTime sys z i = invalid_FILETIME \<and>
     fst (GetComment api sys z) = None \<and>
     GetFileCount z = 0 \<and>
     GetFileName z i = None \<and>
     GetFileIndex z name = Some (NOT_FOUND :: 's word) \<and>
     map_option data (GetFileData_name api sys z name :: ('u, 's word) outcome option) =
       Some None \<and>
     GetFileTime_name TYPE('s) sys z name = Some invalid_FILETIME)"
  by (simp add: Let_def ZipFile_ctor_def GetFileData_def GetFileTime_def GetComment_def
      GetFileCount_def GetFileName_def GetFileData_name_def GetFileTime_name_def
      GetFileIndex_no_hashes)

theorem closed_handle_queries_witness:
  "data (GetFileData ex_api ex_sys (ZipFile_ctor ex_api ex_sys None) (0 :: 32 word)) = None \<and>
   GetFileTime ex_sys (ZipFile_ctor ex_api ex_sys None) (0 :: 32 word) = invalid_FILETIME \<and>
   fst (GetComment ex_api ex_sys (ZipFile_ctor ex_api ex_sys None)) = None \<and>
   GetFileCount (ZipFile_ctor ex_api ex_sys None) = 0 \<and>
   GetFileName (ZipFile_ctor ex_api ex_sys None) (0 :: 32 word) = None \<and>
   GetFileIndex (ZipFile_ctor ex_api ex_sys None) (T_lit ''report.txt'') =
     Some (NOT_FOUND :: 32 word)"
  using closed_handle_queries [of ex_api ex_sys "0 :: 32 word" "T_lit ''report.txt''"]
  by (simp add: Let_def)

section \<open>The index that the enumeration builds\<close>

lemma parallel_vectors_append:
  "parallel_vectors z \<Longrightarrow>
   parallel_vectors (z\<lparr>filenames := filenames z @ [name],
                      filenameHashes := filenameHashes z @ [GetQuickHashI name],
                      fileinfo := fileinfo z @ [finfo],
                      filepos := filepos z @ [fpos]\<rparr>)"
  by (simp add: parallel_vectors_def)

lemma parallel_vectors_uf: "parallel_vectors z \<Longrightarrow> parallel_vectors (z\<lparr>uf := v\<rparr>)"
  by (simp add: parallel_vectors_def)

lemma ExtractFilenames_loop_parallel:
  "parallel_vectors z \<Longrightarrow> parallel_vectors (ExtractFilenames_loop api sys n i err u z)"
proof (induction "n - i" arbitrary: i err u z)
  case 0
  then have "\<not> (i < n \<and> UNZ_OK = err)" by simp
  then have "ExtractFilenames_loop api sys n i err u z = z\<lparr>uf := Some u\<rparr>"
    by (subst ExtractFilenames_loop.simps) (simp only: if_False)
  with "0.prems" show ?case by (simp add: parallel_vectors_uf)
next
  case (Suc k)
  from Suc.hyps(2) have k: "k = n - Suc i" by simp
  note IH = Suc.hyps(1) [OF k]
  show ?case
    by (subst ExtractFilenames_loop.simps)
       (auto simp: Let_def split: prod.splits if_splits
          intro!: IH parallel_vectors_append parallel_vectors_uf Suc.prems)
qed

lemma ZipFile_ctor_parallel: "parallel_vectors (ZipFile_ctor api sys opened)"
proof -
  have empty: "parallel_vectors \<lparr>uf = v, filenames = [], filenameHashes = [],
                 fileinfo = [], filepos = [], commentLen = 0\<rparr>" for v :: "'a option"
    by (simp add: parallel_vectors_def)
  have comment: "parallel_vectors z \<Longrightarrow> parallel_vectors (z\<lparr>commentLen := c\<rparr>)" for z :: "'a ZipFile" and c
    by (simp add: parallel_vectors_def)
  show ?thesis
    by (auto simp: ZipFile_ctor_def ExtractFilenames_def Let_def 
        split: option.splits prod.splits
        intro!: comment ExtractFilenames_loop_parallel parallel_vectors_uf empty)
qed

lemma index_of_names_parallel: "parallel_vectors (index_of_names names)"
  by (simp add: parallel_vectors_def index_of_names_def)

section \<open>Adding a file to the writer\<close>

text \<open>
  C8: \<open>AddFile\<close> fails exactly when the source path does not exist, and then leaves
  the list as it is; when the path exists and no name is given, the pair appended is
  the path and, as archive name, the base name of the path if the path is absolute
  and the path itself otherwise.
\<close>

theorem AddFile_exists_and_name:
  "(fst (AddFile sys IsAbsolute GetBaseName d filePath nameInZip) \<longleftrightarrow> Exists sys filePath) \<and>
   (\<not> Exists sys filePath \<longrightarrow>
      snd (AddFile sys IsAbsolute GetBaseName d filePath nameInZip) = d) \<and>
   (Exists sys filePath \<longrightarrow>
      pathsAndZipNames (snd (AddFile sys IsAbsolute GetBaseName d filePath None)) =
        pathsAndZipNames d @
          [filePath, if IsAbsolute filePath then GetBaseName filePath else filePath])"
  by (simp add: AddFile_def Let_def)

theorem AddFile_exists_and_name_witness:
  "fst (AddFile ex_sys path_IsAbsolute path_GetBaseName \<lparr>pathsAndZipNames = []\<rparr>
         (T_lit ''/abs/path/readme.txt'') None) \<and>
   pathsAndZipNames (snd (AddFile ex_sys path_IsAbsolute path_GetBaseName
         \<lparr>pathsAndZipNames = []\<rparr> (T_lit ''/abs/path/readme.txt'') None)) =
     [T_lit ''/abs/path/readme.txt'', T_lit ''readme.txt'']"
proof -
  have ex: "Exists ex_sys (T_lit ''/abs/path/readme.txt'')" by (simp add: ex_sys_def)
  have ab: "path_IsAbsolute (T_lit ''/abs/path/readme.txt'')" by code_simp
  have bn: "path_GetBaseName (T_lit ''/abs/path/readme.txt'') = T_lit ''readme.txt''"
    by code_simp
  show ?thesis
    using AddFile_exists_and_name [of ex_sys path_IsAbsolute path_GetBaseName
        "\<lparr>pathsAndZipNames = []\<rparr>" "T_lit ''/abs/path/readme.txt''" None] ex ab bn
    by simp
qed

section \<open>The path of an extraction\<close>

text \<open>
  C9, as stated, fails: for the entry \<open>dir/file.bin\<close> and the directory \<open>C:/out\<close>
  the code writes to \<open>C:\out\dir\file.bin\<close>, where translating the name only gives
  \<open>C:/out\dir\file.bin\<close>.
\<close>

theorem UnzipFile_path_counterexample:
  "UnzipFile_path (T_lit ''dir/file.bin'') (T_lit ''C:/out'') None \<noteq>
   spec_extract_path (T_lit ''dir/file.bin'') (T_lit ''C:/out'') None"
  by code_simp

lemma T_lit_backslash: "T_lit [CHR 0x5C] = [0x5C]"
  by (simp add: T_lit_def)

lemma T_lit_slash: "T_lit ''/'' = [0x2F]"
  by (simp add: T_lit_def)

lemma EndsWith_single: "EndsWith s [x] \<longleftrightarrow> s \<noteq> [] \<and> last s = x"
proof (cases s rule: rev_cases)
  case Nil
  then show ?thesis by (simp add: EndsWith_def)
next
  case (snoc ys y)
  then show ?thesis by (simp add: EndsWith_def)
qed

lemma TransChars_slash:
  "TransChars s [0x2F] [0x5C] = map (\<lambda>c. if c = 0x2F then 0x5C else c) s"
  by (simp add: TransChars_def)

lemma UnzipFile_path_eq:
  "UnzipFile_path filename dir unzippedName =
     (let joined = (if dir \<noteq> [] \<and> last dir = 0x5C then dir else dir @ [0x5C])
      in case unzippedName of
           Some n \<Rightarrow> joined @ n
         | None \<Rightarrow> map (\<lambda>c. if c = 0x2F then 0x5C else c) (joined @ filename))"
  by (simp add: UnzipFile_path_def Let_def T_lit_backslash T_lit_slash EndsWith_single
      TransChars_slash split: option.split)

text \<open>
  C9, amended: when the read by name returns a buffer, \<open>UnzipFile\<close> writes it to the
  path made of the directory, one \<open>\\<close> appended unless the directory already ends
  in \<open>\\<close>, and the override name; without an override name the looked-up name is
  appended instead and every \<open>/\<close> of the whole path, the directory included, becomes
  \<open>\\<close>. The buffer is freed after the write whatever the write returned, and the
  result is that of the write. When the read returns null nothing is written.
\<close>

theorem UnzipFile_path_and_free:
  assumes got: "GetFileData_name api sys z filename = Some out"
    and P: "P = (let joined = (if dir \<noteq> [] \<and> last dir = 0x5C then dir else dir @ [0x5C])
                 in case unzippedName of
                      Some n \<Rightarrow> joined @ n
                    | None \<Rightarrow> map (\<lambda>c. if c = 0x2F then 0x5C else c) (joined @ filename))"
  shows "(data out = None \<longrightarrow>
            UnzipFile api sys z filename dir unzippedName = Some (False, out)) \<and>
         (\<forall>d. data out = Some d \<longrightarrow>
            (\<exists>len. len_out out = Some len \<and>
               UnzipFile api sys z filename dir unzippedName =
                 Some (WriteAll sys P d (unat len),
                       out\<lparr>events := events out @ [EvWriteAll P, EvFree]\<rparr>)))"
proof -
  from got obtain idx where out: "out = GetFileData api sys z idx"
    by (auto simp: GetFileData_name_def)
  have path: "UnzipFile_path filename dir unzippedName = P"
    unfolding P by (rule UnzipFile_path_eq)
  show ?thesis
  proof (intro conjI impI allI)
    assume "data out = None"
    then show "UnzipFile api sys z filename dir unzippedName = Some (False, out)"
      using got by (simp add: UnzipFile_def)
  next
    fix d assume d: "data out = Some d"
    with out GetFileData_len_out [of api sys z idx d]
    obtain len where len: "len_out out = Some len" by auto
    have "UnzipFile api sys z filename dir unzippedName =
            Some (WriteAll sys P d (unat len),
                  out\<lparr>events := events out @ [EvWriteAll P, EvFree]\<rparr>)"
      using got d len by (simp add: UnzipFile_def path Let_def)
    with len show "\<exists>len. len_out out = Some len \<and>
               UnzipFile api sys z filename dir unzippedName =
                 Some (WriteAll sys P d (unat len),
                       out\<lparr>events := events out @ [EvWriteAll P, EvFree]\<rparr>)" by simp
  qed
qed

lemma ex_get: "GetFileData_name ex_api ex_sys ex_zip (T_lit ''dir/file.bin'') =
   Some (\<lparr>data = Some [1, 2, 3, 0, 0], len_out = Some (3 :: 32 word), handle = ex_zip, events = [EvAlloc 5]\<rparr>)"
  by code_simp

theorem UnzipFile_path_and_free_witness:
  "UnzipFile ex_api ex_sys ex_zip (T_lit ''dir/file.bin'') (T_lit (''C:'' @ [CHR 0x5C] @ ''out'')) None =
     Some (True, \<lparr>data = Some [1, 2, 3, 0, 0], len_out = Some (3 :: 32 word), handle = ex_zip,
        events = [EvAlloc 5,
          EvWriteAll (T_lit (''C:'' @ [CHR 0x5C] @ ''out'' @ [CHR 0x5C] @ ''dir'' @ [CHR 0x5C] @ ''file.bin'')),
          EvFree]\<rparr>)"
proof -
  let ?dir = "T_lit (''C:'' @ [CHR 0x5C] @ ''out'')"
  let ?name = "T_lit ''dir/file.bin''"
  let ?P = "T_lit (''C:'' @ [CHR 0x5C] @ ''out'' @ [CHR 0x5C] @ ''dir'' @ [CHR 0x5C] @ ''file.bin'')"
  have P: "?P = (let joined = (if ?dir \<noteq> [] \<and> last ?dir = 0x5C then ?dir else ?dir @ [0x5C])
                 in case (None :: tstring option) of
                      Some n \<Rightarrow> joined @ n
                    | None \<Rightarrow> map (\<lambda>c. if c = 0x2F then 0x5C else c) (joined @ ?name))"
    by code_simp
  have w: "WriteAll ex_sys ?P [1, 2, 3, 0, 0] (unat (3 :: 32 word))" by (simp add: ex_sys_def)
  show ?thesis
    using UnzipFile_path_and_free [OF ex_get P] w by simp
qed


end
